theory Spec2Isabelle
  imports Main "HOL-Library.Word"
begin

section \<open>Data model\<close>

text \<open>
  The registration package of flux (\<^verbatim>\<open>registration/registrar.go\<close>) and the two
  registry clients (\<^verbatim>\<open>registry/http_client.go\<close>, \<^verbatim>\<open>registry/grpc_client.go\<close>).

  \<^verbatim>\<open>time.Duration\<close> is Go's \<^verbatim>\<open>int64\<close> (nanoseconds): a 64-bit word, read as a signed
  value by \<open>sint\<close>, whose multiplication and left shift wrap. \<^verbatim>\<open>MaxRetries\<close> is a Go
  \<^verbatim>\<open>int\<close>; the code only compares it with zero and with the loop counter, so it is
  an \<open>int\<close> here, and the counter, which starts at 0 and stays below it, a \<open>nat\<close>.
\<close>

type_synonym Duration = "64 word"

record ServiceInstance =
  ID :: string
  ServiceName :: string
  Host :: string
  Port :: int
  URL :: string
  HealthPath :: string

record Config =
  RegistryURL :: string
  RegistryType :: string
  HeartbeatInterval :: Duration
  CallTimeout :: Duration
  MaxRetries :: int
  RetryDelay :: Duration

text \<open>
  The errors, one constructor per \<^verbatim>\<open>fmt.Errorf\<close> of \<^verbatim>\<open>registrar.go\<close>.
  \<open>Err_aborted\<close> is the only one of \<^verbatim>\<open>registerWithRetry\<close> built with \<^verbatim>\<open>%w\<close> around
  \<^verbatim>\<open>ctx.Err()\<close> (line 160); \<open>Err_retries_exhausted\<close> carries the \<^verbatim>\<open>%d\<close> of line 163.
  \<open>Err_grpc_NewClient\<close> is the error of \<^verbatim>\<open>NewGRPCClient\<close> (grpc_client.go, line 32), and
  \<open>Err_ClientConnClosing\<close> stands for an error value of the gRPC library that
  \<^verbatim>\<open>grpcClient.Close\<close> hands on unchanged.
\<close>

datatype error =
    Err_config_nil
  | Err_RegistryURL
  | Err_HeartbeatInterval
  | Err_CallTimeout
  | Err_MaxRetries
  | Err_RetryDelay
  | Err_grpc_NewClient
  | Err_grpc_client
  | Err_ClientConnClosing
  | Err_unsupported_type string
  | Err_aborted
  | Err_retries_exhausted int

text \<open>
  What a Registrar does to the outside world, in the order it does it: the calls on the
  registry client, the arms taken by the \<^verbatim>\<open>select\<close> statements, the log lines, the
  state gauge, and the goroutine and channel operations.
\<close>

datatype log_line =
    Log_initial_attempt
  | Log_initial_failed
  | Log_initial_registered
  | Log_attempt_failed nat Duration
  | Log_heartbeat_failed
  | Log_reregistration_failed
  | Log_reregistered
  | Log_heartbeat_sent
  | Log_loop_stopped
  | Log_loop_ctx_cancelled
  | Log_shutdown
  | Log_deregistration_failed
  | Log_deregistered
  | Log_close_failed
  | Log_registrar_stopped

datatype event =
    Register_call
  | Heartbeat_call
  | Deregister_call
  | Close_call
  | Timer_fired Duration
  | Ctx_done_in_wait Duration
  | Set_gauge nat
  | Log log_line
  | Go_runHeartbeatLoop
  | Close_stopHeartbeat
  | Loop_returned

definition register_calls :: "event list \<Rightarrow> nat" where
  "register_calls tr = length (filter (\<lambda>e. e = Register_call) tr)"

fun wait_of :: "event \<Rightarrow> Duration list" where
  "wait_of (Timer_fired d) = [d]"
| "wait_of (Ctx_done_in_wait d) = [d]"
| "wait_of _ = []"

definition waits :: "event list \<Rightarrow> Duration list" where
  "waits tr = concat (map wait_of tr)"

section \<open>registerWithRetry\<close>

text \<open>
  \<^verbatim>\<open>RetryDelay * time.Duration(1 << i)\<close> (lines 154 and 157): the constant 1 takes
  the type of the conversion, so the shift and the product are both on \<^verbatim>\<open>int64\<close>.
\<close>

definition backoff :: "Config \<Rightarrow> nat \<Rightarrow> Duration" where
  "backoff cfg i = RetryDelay cfg * push_bit i 1"

text \<open>
  The loop of lines 143 to 162, from counter \<open>i\<close>. The registry and the Go runtime
  are two oracles: \<open>register_fails i\<close> says that the \<^verbatim>\<open>Register\<close> call of attempt
  \<open>i\<close> returned an error, \<open>ctx_done i\<close> that the \<^verbatim>\<open>select\<close> after attempt \<open>i\<close>
  took the arm \<^verbatim>\<open><-ctx.Done()\<close> rather than the timer's. The result is the error
  returned (\<open>None\<close> for \<^verbatim>\<open>nil\<close>) and the events of the run.
\<close>

function retry_from ::
  "Config \<Rightarrow> (nat \<Rightarrow> bool) \<Rightarrow> (nat \<Rightarrow> bool) \<Rightarrow> nat \<Rightarrow> error option \<times> event list" where
  "retry_from cfg register_fails ctx_done i =
     (if int i < MaxRetries cfg then
        if \<not> register_fails i then (None, [Register_call])
        else if ctx_done i then
          (Some Err_aborted,
           [Register_call, Log (Log_attempt_failed (i + 1) (backoff cfg i)),
            Ctx_done_in_wait (backoff cfg i)])
        else
          (case retry_from cfg register_fails ctx_done (Suc i) of
            (err, evs) \<Rightarrow>
              (err,
               Register_call # Log (Log_attempt_failed (i + 1) (backoff cfg i)) #
               Timer_fired (backoff cfg i) # evs))
      else (Some (Err_retries_exhausted (MaxRetries cfg)), []))"
  by pat_completeness auto
termination
  by (relation "measure (\<lambda>(cfg, register_fails, ctx_done, i). nat (MaxRetries cfg) - i)") auto

definition registerWithRetry ::
  "Config \<Rightarrow> (nat \<Rightarrow> bool) \<Rightarrow> (nat \<Rightarrow> bool) \<Rightarrow> error option \<times> event list" where
  "registerWithRetry cfg register_fails ctx_done = retry_from cfg register_fails ctx_done 0"

section \<open>The registry clients\<close>

text \<open>
  \<^verbatim>\<open>registry.Client\<close> has two implementations. Of \<^verbatim>\<open>*grpc.ClientConn\<close>, a type of the
  gRPC library, the code reads only the connectivity state (\<^verbatim>\<open>GetState\<close>) and calls
  \<^verbatim>\<open>Close\<close>; a connection is modelled by its state, a nil pointer by \<open>None\<close>, and the
  library's \<^verbatim>\<open>grpc.NewClient\<close> and \<^verbatim>\<open>ClientConn.Close\<close> are parameters.
\<close>

datatype connectivity = Idle | Connecting | Ready | TransientFailure | Shutdown

record httpClient =
  registryURL :: string
  timeout :: Duration

record grpcClient =
  registryAddress :: string
  conn :: "connectivity option"

datatype Client = Http httpClient | Grpc grpcClient

definition NewHTTPClient :: "string \<Rightarrow> Duration \<Rightarrow> Client" where
  "NewHTTPClient url t = Http \<lparr>registryURL = url, timeout = t\<rparr>"

definition NewGRPCClient ::
  "(string \<Rightarrow> connectivity option) \<Rightarrow> string \<Rightarrow> Duration \<Rightarrow> error + Client" where
  "NewGRPCClient grpc_NewClient address t =
     (case grpc_NewClient address of
        None \<Rightarrow> Inl Err_grpc_NewClient
      | Some st \<Rightarrow> Inr (Grpc \<lparr>registryAddress = address, conn = Some st\<rparr>))"

definition httpClient_Close :: "httpClient \<Rightarrow> error option \<times> httpClient" where
  "httpClient_Close c = (None, c)"

definition grpcClient_Close ::
  "(connectivity \<Rightarrow> error option \<times> connectivity) \<Rightarrow> grpcClient \<Rightarrow> error option \<times> grpcClient" where
  "grpcClient_Close conn_Close c =
     (case conn c of
        Some st \<Rightarrow>
          if st \<noteq> Shutdown then
            (case conn_Close st of (err, st') \<Rightarrow> (err, c\<lparr>conn := Some st'\<rparr>))
          else (None, c)
      | None \<Rightarrow> (None, c))"

text \<open>The interface method, dispatched on the implementation.\<close>

fun Close ::
  "(connectivity \<Rightarrow> error option \<times> connectivity) \<Rightarrow> Client \<Rightarrow> error option \<times> Client" where
  "Close conn_Close (Http c) = (case httpClient_Close c of (err, c') \<Rightarrow> (err, Http c'))"
| "Close conn_Close (Grpc c) = (case grpcClient_Close conn_Close c of (err, c') \<Rightarrow> (err, Grpc c'))"

text \<open>\<open>n\<close> calls of \<^verbatim>\<open>Close\<close> in a row: the errors they returned, first call first, and the client left.\<close>

fun Close_times ::
  "(connectivity \<Rightarrow> error option \<times> connectivity) \<Rightarrow> nat \<Rightarrow> Client \<Rightarrow> error option list \<times> Client" where
  "Close_times conn_Close 0 cl = ([], cl)"
| "Close_times conn_Close (Suc n) cl =
     (case Close conn_Close cl of
        (err, cl') \<Rightarrow> (case Close_times conn_Close n cl' of (errs, cl'') \<Rightarrow> (err # errs, cl'')))"

section \<open>The Registrar\<close>

text \<open>
  The struct of lines 36 to 42. \<open>wg\<close> is the counter of the \<^verbatim>\<open>sync.WaitGroup\<close>,
  \<open>stopHeartbeat_closed\<close> says whether the channel \<^verbatim>\<open>stopHeartbeat\<close> has been closed, and
  \<open>trace\<close> is a ghost field: the events so far, oldest first.
\<close>

record Registrar =
  inst :: ServiceInstance
  client :: Client
  config :: Config
  wg :: int
  stopHeartbeat_closed :: bool
  trace :: "event list"

text \<open>The struct literal of lines 81 to 86: a zero WaitGroup and a fresh channel.\<close>

definition new_Registrar :: "ServiceInstance \<Rightarrow> Client \<Rightarrow> Config \<Rightarrow> Registrar" where
  "new_Registrar i cl cfg =
     \<lparr>inst = i, client = cl, config = cfg, wg = 0, stopHeartbeat_closed = False, trace = []\<rparr>"

text \<open>
  \<^verbatim>\<open>NewRegistrar\<close>, lines 45 to 87. The configuration is a pointer, \<open>None\<close> when nil.
  The duration checks are signed comparisons on \<^verbatim>\<open>int64\<close>.
\<close>

definition NewRegistrar ::
  "(string \<Rightarrow> connectivity option) \<Rightarrow> ServiceInstance \<Rightarrow> Config option \<Rightarrow> error + Registrar" where
  "NewRegistrar grpc_NewClient i cfg_ptr =
     (case cfg_ptr of
        None \<Rightarrow> Inl Err_config_nil
      | Some cfg \<Rightarrow>
          if RegistryURL cfg = [] then Inl Err_RegistryURL
          else if sint (HeartbeatInterval cfg) \<le> 0 then Inl Err_HeartbeatInterval
          else if sint (CallTimeout cfg) \<le> 0 then Inl Err_CallTimeout
          else if MaxRetries cfg < 0 then Inl Err_MaxRetries
          else if sint (RetryDelay cfg) < 0 then Inl Err_RetryDelay
          else if RegistryType cfg = ''http'' then
            Inr (new_Registrar i (NewHTTPClient (RegistryURL cfg) (CallTimeout cfg)) cfg)
          else if RegistryType cfg = ''grpc'' then
            (case NewGRPCClient grpc_NewClient (RegistryURL cfg) (CallTimeout cfg) of
               Inl e \<Rightarrow> Inl Err_grpc_client
             | Inr cl \<Rightarrow> Inr (new_Registrar i cl cfg))
          else Inl (Err_unsupported_type (RegistryType cfg)))"

text \<open>
  \<^verbatim>\<open>Start\<close>, lines 91 to 104: the initial registration, its log line and gauge, then
  \<^verbatim>\<open>r.wg.Add(1)\<close> and the \<^verbatim>\<open>go\<close> statement.
\<close>

definition Start :: "(nat \<Rightarrow> bool) \<Rightarrow> (nat \<Rightarrow> bool) \<Rightarrow> Registrar \<Rightarrow> Registrar" where
  "Start register_fails ctx_done r =
     (case registerWithRetry (config r) register_fails ctx_done of
        (err, evs) \<Rightarrow>
          r\<lparr>wg := wg r + 1,
            trace := trace r @ Log Log_initial_attempt # evs @
              (case err of
                 Some e \<Rightarrow> [Log Log_initial_failed, Set_gauge 0]
               | None \<Rightarrow> [Log Log_initial_registered, Set_gauge 1]) @
              [Go_runHeartbeatLoop]\<rparr>)"

text \<open>
  The \<^verbatim>\<open>select\<close> of \<^verbatim>\<open>runHeartbeatLoop\<close> (lines 113 to 138) takes one of three arms. The
  ticker's arm carries what the registry and the runtime do during it: whether the
  heartbeat call fails, and the two oracles of the registerWithRetry that then follows.
\<close>

datatype select_case =
    On_tick bool "nat \<Rightarrow> bool" "nat \<Rightarrow> bool"
  | On_stopHeartbeat
  | On_ctx_done

text \<open>
  One pass through the \<^verbatim>\<open>for\<close> loop with the given arm. The Boolean says whether the
  function returned; on return the deferred \<^verbatim>\<open>ticker.Stop()\<close> and \<^verbatim>\<open>r.wg.Done()\<close> run.
  The arm \<^verbatim>\<open>case <-ctx.Done()\<close> (lines 136 to 138) logs and has no \<^verbatim>\<open>return\<close>.
\<close>

fun loop_iteration :: "select_case \<Rightarrow> Registrar \<Rightarrow> bool \<times> Registrar" where
  "loop_iteration (On_tick heartbeat_fails register_fails ctx_done) r =
     (if heartbeat_fails then
        (case registerWithRetry (config r) register_fails ctx_done of
           (registrationErr, evs) \<Rightarrow>
             (False,
              r\<lparr>trace := trace r @ Heartbeat_call # Log Log_heartbeat_failed # evs @
                (case registrationErr of
                   Some e \<Rightarrow> [Log Log_reregistration_failed, Set_gauge 0]
                 | None \<Rightarrow> [Log Log_reregistered, Set_gauge 1])\<rparr>))
      else
        (False, r\<lparr>trace := trace r @ [Heartbeat_call, Log Log_heartbeat_sent, Set_gauge 1]\<rparr>))"
| "loop_iteration On_stopHeartbeat r =
     (True, r\<lparr>wg := wg r - 1, trace := trace r @ [Log Log_loop_stopped, Loop_returned]\<rparr>)"
| "loop_iteration On_ctx_done r =
     (False, r\<lparr>trace := trace r @ [Log Log_loop_ctx_cancelled]\<rparr>)"

text \<open>
  \<^verbatim>\<open>runHeartbeatLoop\<close> on the arms its \<^verbatim>\<open>select\<close> takes, in order. The loop has no
  exit of its own: when the list is used up and no arm returned, it is still running
  (\<open>False\<close>).
\<close>

fun runHeartbeatLoop :: "select_case list \<Rightarrow> Registrar \<Rightarrow> bool \<times> Registrar" where
  "runHeartbeatLoop [] r = (False, r)"
| "runHeartbeatLoop (sc # scs) r =
     (case loop_iteration sc r of
        (returned, r') \<Rightarrow> if returned then (True, r') else runHeartbeatLoop scs r')"

text \<open>
  \<^verbatim>\<open>Stop\<close>, lines 167 to 187, in the two parts that \<^verbatim>\<open>r.wg.Wait()\<close> separates.
  Closing a closed channel panics: \<open>None\<close>. After the wait come the deregister call,
  its log line, \<^verbatim>\<open>Close\<close> on the client, the gauge and the last log line; the two
  Booleans say whether \<^verbatim>\<open>Deregister\<close> and \<^verbatim>\<open>Close\<close> returned an error. \<^verbatim>\<open>Stop\<close> has no
  result.
\<close>

definition Stop_before_Wait :: "Registrar \<Rightarrow> Registrar option" where
  "Stop_before_Wait r =
     (if stopHeartbeat_closed r then None
      else Some (r\<lparr>stopHeartbeat_closed := True,
                  trace := trace r @ [Log Log_shutdown, Close_stopHeartbeat]\<rparr>))"

definition Stop_after_Wait :: "bool \<Rightarrow> bool \<Rightarrow> Registrar \<Rightarrow> Registrar" where
  "Stop_after_Wait deregister_fails close_fails r =
     r\<lparr>trace := trace r @
        [Deregister_call,
         Log (if deregister_fails then Log_deregistration_failed else Log_deregistered),
         Close_call] @
        (if close_fails then [Log Log_close_failed] else []) @
        [Set_gauge 0, Log Log_registrar_stopped]\<rparr>"

section \<open>The Registrar and its goroutine\<close>

text \<open>
  The caller's thread runs \<^verbatim>\<open>Start\<close> and later \<^verbatim>\<open>Stop\<close>; the goroutine launched by
  \<^verbatim>\<open>Start\<close> runs \<^verbatim>\<open>runHeartbeatLoop\<close>. Both work on the same Registrar. The goroutine is
  either blocked in its \<^verbatim>\<open>select\<close> or inside the arm it took, which takes time (a
  heartbeat call and possibly a whole registerWithRetry); the caller can act in between.
  \<^verbatim>\<open>r.wg.Wait()\<close> returns only when the counter is zero, the ticker's arm is always
  possible, the arm of \<^verbatim>\<open>stopHeartbeat\<close> once the channel is closed, the arm of
  \<^verbatim>\<open>ctx.Done()\<close> once the context is cancelled. \<^verbatim>\<open>Start\<close> and \<^verbatim>\<open>Stop\<close> are called at
  most once each, as the Registrar's contract asks.
\<close>

datatype goroutine = Not_launched | In_select | In_case select_case | Returned

datatype caller = Constructed | Started | In_Wait | Stopped

record system =
  registrar :: Registrar
  loop :: goroutine
  caller :: caller
  ctx_cancelled :: bool

datatype action =
    Call_Start "nat \<Rightarrow> bool" "nat \<Rightarrow> bool"
  | Select select_case
  | Finish_case
  | Cancel_ctx
  | Call_Stop
  | Wait_returns bool bool

fun ready :: "select_case \<Rightarrow> system \<Rightarrow> bool" where
  "ready (On_tick h f c) s = True"
| "ready On_stopHeartbeat s = stopHeartbeat_closed (registrar s)"
| "ready On_ctx_done s = ctx_cancelled s"

fun active :: "goroutine \<Rightarrow> bool" where
  "active Not_launched = False"
| "active In_select = True"
| "active (In_case sc) = True"
| "active Returned = False"

fun step :: "action \<Rightarrow> system \<Rightarrow> system option" where
  "step (Call_Start register_fails ctx_done) s =
     (if caller s = Constructed then
        Some (s\<lparr>registrar := Start register_fails ctx_done (registrar s),
                loop := In_select, caller := Started\<rparr>)
      else None)"
| "step (Select sc) s =
     (if loop s = In_select \<and> ready sc s then Some (s\<lparr>loop := In_case sc\<rparr>) else None)"
| "step Finish_case s =
     (case loop s of
        In_case sc \<Rightarrow>
          (case loop_iteration sc (registrar s) of
             (returned, r') \<Rightarrow>
               Some (s\<lparr>registrar := r', loop := (if returned then Returned else In_select)\<rparr>))
      | _ \<Rightarrow> None)"
| "step Cancel_ctx s = Some (s\<lparr>ctx_cancelled := True\<rparr>)"
| "step Call_Stop s =
     (if caller s = Constructed \<or> caller s = Started then
        (case Stop_before_Wait (registrar s) of
           None \<Rightarrow> None
         | Some r' \<Rightarrow> Some (s\<lparr>registrar := r', caller := In_Wait\<rparr>))
      else None)"
| "step (Wait_returns deregister_fails close_fails) s =
     (if caller s = In_Wait \<and> wg (registrar s) = 0 then
        Some (s\<lparr>registrar := Stop_after_Wait deregister_fails close_fails (registrar s),
                caller := Stopped\<rparr>)
      else None)"

fun run :: "action list \<Rightarrow> system \<Rightarrow> system option" where
  "run [] s = Some s"
| "run (a # as) s = (case step a s of None \<Rightarrow> None | Some s' \<Rightarrow> run as s')"

definition boot :: "Registrar \<Rightarrow> system" where
  "boot r = \<lparr>registrar = r, loop = Not_launched, caller = Constructed, ctx_cancelled = False\<rparr>"

text \<open>The events that follow the first occurrence of \<open>x\<close>, and those before it.\<close>

definition after_first :: "event \<Rightarrow> event list \<Rightarrow> event list" where
  "after_first x tr = drop 1 (dropWhile (\<lambda>e. e \<noteq> x) tr)"

definition before_first :: "event \<Rightarrow> event list \<Rightarrow> event list" where
  "before_first x tr = takeWhile (\<lambda>e. e \<noteq> x) tr"

text \<open>
  A schedule that lets a \<^verbatim>\<open>Stop\<close> that waits run to its end: the goroutine finishes
  the arm it is in, takes the arm of \<^verbatim>\<open>stopHeartbeat\<close> and returns, then
  \<^verbatim>\<open>r.wg.Wait()\<close> returns.
\<close>

fun finish_Stop :: "goroutine \<Rightarrow> bool \<Rightarrow> bool \<Rightarrow> action list" where
  "finish_Stop In_select d c = [Select On_stopHeartbeat, Finish_case, Wait_returns d c]"
| "finish_Stop (In_case On_stopHeartbeat) d c = [Finish_case, Wait_returns d c]"
| "finish_Stop (In_case sc) d c =
     [Finish_case, Select On_stopHeartbeat, Finish_case, Wait_returns d c]"
| "finish_Stop g d c = [Wait_returns d c]"

section \<open>Concrete inputs\<close>

text \<open>
  Oracles: a registry call that fails at every attempt, one that never fails, and a
  \<^verbatim>\<open>select\<close> that takes the arm of \<^verbatim>\<open>ctx.Done()\<close> at wait \<open>k\<close> only.
\<close>

definition always :: "nat \<Rightarrow> bool" where
  "always i = True"

definition never :: "nat \<Rightarrow> bool" where
  "never i = False"

definition only_at :: "nat \<Rightarrow> nat \<Rightarrow> bool" where
  "only_at k i = (i = k)"

text \<open>
  \<^verbatim>\<open>time.Second\<close>, and the configuration of \<^verbatim>\<open>NewDefaultConfig\<close> (lines 26 to 33) with a
  registry address, the HTTP transport and \<open>n\<close> for \<^verbatim>\<open>MaxRetries\<close>.
\<close>

definition second :: Duration where
  "second = 1000000000"

definition example_config :: "int \<Rightarrow> Config" where
  "example_config n =
     \<lparr>RegistryURL = ''http://registry:8080'', RegistryType = ''http'',
      HeartbeatInterval = 10 * second, CallTimeout = 5 * second,
      MaxRetries = n, RetryDelay = second\<rparr>"

definition invalid_url_config :: Config where
  "invalid_url_config = (example_config 5)\<lparr>RegistryURL := []\<rparr>"

definition grpc_config :: Config where
  "grpc_config = (example_config 5)\<lparr>RegistryURL := ''registry:9090'', RegistryType := ''grpc''\<rparr>"

definition example_instance :: ServiceInstance where
  "example_instance =
     \<lparr>ID = ''orders-1'', ServiceName = ''orders'', Host = ''10.0.0.7'', Port = 8081,
      URL = ''http://10.0.0.7:8081'', HealthPath = ''/health''\<rparr>"

text \<open>The Registrar that \<^verbatim>\<open>NewRegistrar\<close> returns for \<open>example_config n\<close>.\<close>

definition example_registrar :: "int \<Rightarrow> Registrar" where
  "example_registrar n =
     new_Registrar example_instance (NewHTTPClient ''http://registry:8080'' (5 * second))
       (example_config n)"

text \<open>
  Two behaviours of \<^verbatim>\<open>grpc.NewClient\<close>, and a \<^verbatim>\<open>ClientConn.Close\<close> that fails on a
  connection that is already closed and closes any other.
\<close>

definition dial_idle :: "string \<Rightarrow> connectivity option" where
  "dial_idle address = Some Idle"

definition dial_fails :: "string \<Rightarrow> connectivity option" where
  "dial_fails address = None"

definition lib_conn_Close :: "connectivity \<Rightarrow> error option \<times> connectivity" where
  "lib_conn_Close st =
     (if st = Shutdown then (Some Err_ClientConnClosing, Shutdown) else (None, Shutdown))"

text \<open>
  Schedules. \<open>example_waiting\<close>: \<^verbatim>\<open>Start\<close> with a registry that is down, a tick begins,
  \<^verbatim>\<open>Stop\<close> is called. \<open>example_shutdown\<close> goes on: the tick ends, the goroutine takes
  the arm of \<^verbatim>\<open>stopHeartbeat\<close> and returns, \<^verbatim>\<open>r.wg.Wait()\<close> returns and the deregistration
  fails. \<open>example_cancelled\<close>: \<^verbatim>\<open>Start\<close> succeeds, the context is cancelled, the goroutine
  takes the arm of \<^verbatim>\<open>ctx.Done()\<close> and then a tick during which every call fails and the
  backoff \<^verbatim>\<open>select\<close> sees the cancelled context.
\<close>

definition example_waiting :: "action list" where
  "example_waiting = [Call_Start always never, Select (On_tick True always never), Call_Stop]"

definition example_shutdown :: "action list" where
  "example_shutdown =
     example_waiting @ [Finish_case, Select On_stopHeartbeat, Finish_case, Wait_returns True False]"

definition example_cancelled :: "action list" where
  "example_cancelled =
     [Call_Start never never, Cancel_ctx, Select On_ctx_done, Finish_case,
      Select (On_tick True always always), Finish_case]"

section \<open>Auxiliary notions for the proofs\<close>

text \<open>The arms of the ticker.\<close>

fun is_tick :: "select_case \<Rightarrow> bool" where
  "is_tick (On_tick h f c) = True"
| "is_tick _ = False"

text \<open>The events that registerWithRetry can produce.\<close>

fun retry_event :: "event \<Rightarrow> bool" where
  "retry_event Register_call = True"
| "retry_event (Log (Log_attempt_failed n d)) = True"
| "retry_event (Timer_fired d) = True"
| "retry_event (Ctx_done_in_wait d) = True"
| "retry_event _ = False"

text \<open>The events of attempt \<open>j\<close> when its call fails and its timer fires.\<close>

definition failed_attempt :: "Config \<Rightarrow> nat \<Rightarrow> event list" where
  "failed_attempt cfg j =
     [Register_call, Log (Log_attempt_failed (j + 1) (backoff cfg j)), Timer_fired (backoff cfg j)]"

text \<open>A trace without the two calls that only \<^verbatim>\<open>Stop\<close> makes.\<close>

definition quiet :: "event list \<Rightarrow> bool" where
  "quiet tr = (Deregister_call \<notin> set tr \<and> Close_call \<notin> set tr)"

text \<open>What \<open>Stop_after_Wait\<close> appends to the trace.\<close>

definition shutdown_events :: "bool \<Rightarrow> bool \<Rightarrow> event list" where
  "shutdown_events deregister_fails close_fails =
     [Deregister_call,
      Log (if deregister_fails then Log_deregistration_failed else Log_deregistered),
      Close_call] @
     (if close_fails then [Log Log_close_failed] else []) @
     [Set_gauge 0, Log Log_registrar_stopped]"

text \<open>
  The invariant of the system: the WaitGroup counter is 1 exactly while the goroutine
  is alive, the channel is open until \<^verbatim>\<open>Stop\<close> is called, and no deregister or close
  call is in the trace before \<^verbatim>\<open>r.wg.Wait()\<close> has returned.
\<close>

definition sys_inv :: "system \<Rightarrow> bool" where
  "sys_inv s =
     (wg (registrar s) = (if active (loop s) then 1 else 0) \<and>
      (caller s = Constructed \<longrightarrow> loop s = Not_launched) \<and>
      (caller s = Constructed \<or> caller s = Started \<longrightarrow> \<not> stopHeartbeat_closed (registrar s)) \<and>
      (caller s = In_Wait \<longrightarrow>
         stopHeartbeat_closed (registrar s) \<and> Close_stopHeartbeat \<in> set (trace (registrar s))) \<and>
      (caller s \<noteq> Stopped \<longrightarrow>
         quiet (trace (registrar s)) \<and>
         (loop s = Returned \<longrightarrow> Loop_returned \<in> set (trace (registrar s)))) \<and>
      (caller s = Stopped \<longrightarrow>
         \<not> active (loop s) \<and>
         (\<exists>pre d c. trace (registrar s) = pre @ shutdown_events d c \<and> quiet pre \<and>
            Close_stopHeartbeat \<in> set pre \<and>
            (loop s = Returned \<longrightarrow> Loop_returned \<in> set pre))))"

section \<open>Properties of registerWithRetry\<close>

declare retry_from.simps [simp del]

lemma retry_from_all_fail:
  assumes "\<forall>j. register_fails j" and "\<forall>j. \<not> ctx_done j"
  shows "retry_from cfg register_fails ctx_done i =
     (Some (Err_retries_exhausted (MaxRetries cfg)),
      concat (map (failed_attempt cfg) [i..<nat (MaxRetries cfg)]))"
  using assms
proof (induction cfg register_fails ctx_done i rule: retry_from.induct)
  case (1 cfg register_fails ctx_done i)
  show ?case
  proof (cases "int i < MaxRetries cfg")
    case True
    then have "i < nat (MaxRetries cfg)" by simp
    then have u: "[i..<nat (MaxRetries cfg)] = i # [Suc i..<nat (MaxRetries cfg)]"
      by (rule upt_conv_Cons)
    have f: "register_fails i" and c: "\<not> ctx_done i"
      using "1.prems" by simp_all
    have ih: "retry_from cfg register_fails ctx_done (Suc i) =
      (Some (Err_retries_exhausted (MaxRetries cfg)),
       concat (map (failed_attempt cfg) [Suc i..<nat (MaxRetries cfg)]))"
    proof (rule "1.IH")
      show "int i < MaxRetries cfg" by (rule True)
      show "\<not> \<not> register_fails i" using f by blast
      show "\<not> ctx_done i" by (rule c)
      show "\<forall>j. register_fails j" by (rule "1.prems"(1))
      show "\<forall>j. \<not> ctx_done j" by (rule "1.prems"(2))
    qed
    show ?thesis
      by (subst retry_from.simps) (simp add: u True f c ih failed_attempt_def)
  next
    case False
    then show ?thesis by (subst retry_from.simps) simp
  qed
qed

lemma register_calls_attempts:
  "register_calls (concat (map (failed_attempt cfg) js) @ rest) = length js + register_calls rest"
  by (induction js) (simp_all add: register_calls_def failed_attempt_def)

lemma waits_attempts:
  "waits (concat (map (failed_attempt cfg) js) @ rest) = map (backoff cfg) js @ waits rest"
  by (induction js) (simp_all add: waits_def failed_attempt_def)

text \<open>
  What the code does when every attempt fails and the context is never cancelled: as
  many register calls as \<^verbatim>\<open>MaxRetries\<close>, and a wait after each of them, the last
  included.
\<close>

lemma registerWithRetry_all_fail:
  assumes "\<forall>j. register_fails j" and "\<forall>j. \<not> ctx_done j"
  shows "fst (registerWithRetry cfg register_fails ctx_done) =
           Some (Err_retries_exhausted (MaxRetries cfg))"
    and "register_calls (snd (registerWithRetry cfg register_fails ctx_done)) =
           nat (MaxRetries cfg)"
    and "waits (snd (registerWithRetry cfg register_fails ctx_done)) =
           map (backoff cfg) [0..<nat (MaxRetries cfg)]"
proof -
  have r: "registerWithRetry cfg register_fails ctx_done =
     (Some (Err_retries_exhausted (MaxRetries cfg)),
      concat (map (failed_attempt cfg) [0..<nat (MaxRetries cfg)]) @ [])"
    by (simp add: registerWithRetry_def retry_from_all_fail [OF assms])
  show "fst (registerWithRetry cfg register_fails ctx_done) =
           Some (Err_retries_exhausted (MaxRetries cfg))"
    by (simp add: r)
  show "register_calls (snd (registerWithRetry cfg register_fails ctx_done)) =
           nat (MaxRetries cfg)"
    unfolding r snd_conv register_calls_attempts by (simp add: register_calls_def)
  show "waits (snd (registerWithRetry cfg register_fails ctx_done)) =
           map (backoff cfg) [0..<nat (MaxRetries cfg)]"
    unfolding r snd_conv waits_attempts by (simp add: waits_def)
qed

lemma retry_from_cancelled:
  assumes "int k < MaxRetries cfg" and "i \<le> k"
    and "\<forall>j. i \<le> j \<and> j \<le> k \<longrightarrow> register_fails j"
    and "\<forall>j. i \<le> j \<and> j < k \<longrightarrow> \<not> ctx_done j"
    and "ctx_done k"
  shows "retry_from cfg register_fails ctx_done i =
     (Some Err_aborted,
      concat (map (failed_attempt cfg) [i..<k]) @
      [Register_call, Log (Log_attempt_failed (k + 1) (backoff cfg k)),
       Ctx_done_in_wait (backoff cfg k)])"
  using assms
proof (induction "k - i" arbitrary: i)
  case 0
  then have "i = k" by simp
  with 0 show ?case
    by (subst retry_from.simps) simp
next
  case (Suc n)
  then have lt: "i < k" by simp
  have f: "register_fails i" and c: "\<not> ctx_done i"
    using Suc.prems lt by auto
  have i: "int i < MaxRetries cfg"
    using Suc.prems(1) lt by simp
  have ih: "retry_from cfg register_fails ctx_done (Suc i) =
     (Some Err_aborted,
      concat (map (failed_attempt cfg) [Suc i..<k]) @
      [Register_call, Log (Log_attempt_failed (k + 1) (backoff cfg k)),
       Ctx_done_in_wait (backoff cfg k)])"
  proof (rule Suc.hyps(1))
    show "n = k - Suc i" using Suc.hyps(2) by simp
    show "int k < MaxRetries cfg" by (rule Suc.prems(1))
    show "Suc i \<le> k" using lt by simp
    show "\<forall>j. Suc i \<le> j \<and> j \<le> k \<longrightarrow> register_fails j" using Suc.prems(3) by auto
    show "\<forall>j. Suc i \<le> j \<and> j < k \<longrightarrow> \<not> ctx_done j" using Suc.prems(4) by auto
    show "ctx_done k" by (rule Suc.prems(5))
  qed
  have u: "[i..<k] = i # [Suc i..<k]"
    using lt by (rule upt_conv_Cons)
  show ?case
    by (subst retry_from.simps) (simp add: i f c ih u failed_attempt_def)
qed

lemma after_first_append: "x \<notin> set pre \<Longrightarrow> after_first x (pre @ x # post) = post"
  by (induction pre) (auto simp: after_first_def)

lemma before_first_append: "x \<notin> set pre \<Longrightarrow> before_first x (pre @ x # post) = pre"
  by (induction pre) (auto simp: before_first_def)

lemma before_first_absent: "x \<notin> set tr \<Longrightarrow> before_first x tr = tr"
  by (induction tr) (auto simp: before_first_def)

lemma after_first_absent: "x \<notin> set tr \<Longrightarrow> after_first x tr = []"
  by (induction tr) (auto simp: after_first_def)

lemma retry_from_events: "list_all retry_event (snd (retry_from cfg register_fails ctx_done i))"
proof (induction cfg register_fails ctx_done i rule: retry_from.induct)
  case (1 cfg register_fails ctx_done i)
  then show ?case
    by (subst retry_from.simps) (auto split: prod.splits)
qed

lemma quiet_append [simp]: "quiet (xs @ ys) = (quiet xs \<and> quiet ys)"
  by (auto simp: quiet_def)

lemma quiet_Cons: "quiet (x # xs) = (x \<noteq> Deregister_call \<and> x \<noteq> Close_call \<and> quiet xs)"
  by (auto simp: quiet_def)

lemma quiet_Nil [simp]: "quiet []"
  by (simp add: quiet_def)

lemma quiet_retry: "quiet (snd (registerWithRetry cfg register_fails ctx_done))"
proof -
  have "list_all retry_event evs \<Longrightarrow> quiet evs" for evs
    by (induction evs) (auto simp: quiet_Cons)
  then show ?thesis
    unfolding registerWithRetry_def using retry_from_events by blast
qed

lemma quiet_retry': "registerWithRetry cfg register_fails ctx_done = (err, evs) \<Longrightarrow> quiet evs"
  using quiet_retry [of cfg register_fails ctx_done] by simp




text \<open>
  C2 does not hold of the code. The \<^verbatim>\<open>select\<close> of lines 156 to 161 follows every failed
  call, the last one too: with \<^verbatim>\<open>MaxRetries = 2\<close>, a delay of one second, a registry
  that always fails and a context that is never cancelled, the code makes 2 register
  calls and then waits twice, 1 s after the first call and 2 s after the second and
  final one, before it returns the retries-exhausted error. C2 asks for the single
  wait of 1 s between the two calls.
\<close>

theorem C2_waits_after_final_attempt:
  "registerWithRetry (example_config 2) always never =
     (Some (Err_retries_exhausted 2),
      [Register_call, Log (Log_attempt_failed 1 second), Timer_fired second,
       Register_call, Log (Log_attempt_failed 2 (2 * second)), Timer_fired (2 * second)]) \<and>
   register_calls (snd (registerWithRetry (example_config 2) always never)) = 2 \<and>
   waits (snd (registerWithRetry (example_config 2) always never)) = [second, 2 * second] \<and>
   waits (snd (registerWithRetry (example_config 2) always never)) \<noteq> [second]"
proof -
  have r: "registerWithRetry (example_config 2) always never =
     (Some (Err_retries_exhausted 2),
      [Register_call, Log (Log_attempt_failed 1 second), Timer_fired second,
       Register_call, Log (Log_attempt_failed 2 (2 * second)), Timer_fired (2 * second)])"
    by (simp add: registerWithRetry_def retry_from.simps example_config_def always_def never_def
        backoff_def)
  show ?thesis
    unfolding r by (simp add: register_calls_def waits_def)
qed

text \<open>
  C5: in every execution of registerWithRetry in which the \<^verbatim>\<open>select\<close> after attempt
  \<open>k\<close> takes the arm of \<^verbatim>\<open>ctx.Done()\<close> (so attempts \<open>0\<close> to \<open>k\<close> failed and the
  earlier waits ran to their end), the protocol returns the cancellation error, which
  is not the retries-exhausted error; it has made \<open>k + 1\<close> register calls, and the
  observation of the cancellation is the last event: no call follows it.
\<close>

theorem C5_cancellation_aborts:
  assumes "int k < MaxRetries cfg"
    and "\<forall>j. j \<le> k \<longrightarrow> register_fails j"
    and "\<forall>j. j < k \<longrightarrow> \<not> ctx_done j"
    and "ctx_done k"
  shows "registerWithRetry cfg register_fails ctx_done =
     (Some Err_aborted,
      concat (map (failed_attempt cfg) [0..<k]) @
      [Register_call, Log (Log_attempt_failed (k + 1) (backoff cfg k)),
       Ctx_done_in_wait (backoff cfg k)]) \<and>
    register_calls (snd (registerWithRetry cfg register_fails ctx_done)) = Suc k \<and>
    last (snd (registerWithRetry cfg register_fails ctx_done)) = Ctx_done_in_wait (backoff cfg k) \<and>
    after_first (Ctx_done_in_wait (backoff cfg k))
      (snd (registerWithRetry cfg register_fails ctx_done)) = [] \<and>
    fst (registerWithRetry cfg register_fails ctx_done) \<noteq>
      Some (Err_retries_exhausted (MaxRetries cfg))"
proof -
  let ?pre = "concat (map (failed_attempt cfg) [0..<k])"
  let ?c = "Ctx_done_in_wait (backoff cfg k)"
  have r: "registerWithRetry cfg register_fails ctx_done =
     (Some Err_aborted,
      ?pre @ [Register_call, Log (Log_attempt_failed (k + 1) (backoff cfg k)), ?c])"
    unfolding registerWithRetry_def
    using assms by (intro retry_from_cancelled) auto
  have "Ctx_done_in_wait d \<notin> set (concat (map (failed_attempt cfg) js))" for d js
    by (induction js) (simp_all add: failed_attempt_def)
  then have "?c \<notin> set ?pre" .
  then have n: "?c \<notin> set (?pre @ [Register_call, Log (Log_attempt_failed (k + 1) (backoff cfg k))])"
    by (simp del: set_concat)
  have a: "after_first ?c
      (?pre @ [Register_call, Log (Log_attempt_failed (k + 1) (backoff cfg k)), ?c]) = []"
    using after_first_append [OF n, of "[]"] by simp
  show ?thesis
    unfolding r fst_conv snd_conv register_calls_attempts a
    by (simp add: register_calls_def)
qed

text \<open>
  C5 with \<^verbatim>\<open>MaxRetries = 3\<close>: the context is cancelled during the wait after the second
  failed call, and the third call is never made.
\<close>

theorem C5_cancellation_aborts_witness:
  "registerWithRetry (example_config 3) always (only_at 1) =
     (Some Err_aborted,
      [Register_call, Log (Log_attempt_failed 1 second), Timer_fired second,
       Register_call, Log (Log_attempt_failed 2 (2 * second)), Ctx_done_in_wait (2 * second)]) \<and>
   register_calls (snd (registerWithRetry (example_config 3) always (only_at 1))) = 2 \<and>
   fst (registerWithRetry (example_config 3) always (only_at 1)) \<noteq>
     Some (Err_retries_exhausted 3)"
proof -
  have a: "int 1 < MaxRetries (example_config 3)" by (simp add: example_config_def)
  have b: "\<forall>j. j \<le> 1 \<longrightarrow> always j" by (simp add: always_def)
  have c: "\<forall>j. j < 1 \<longrightarrow> \<not> only_at 1 j" by (simp add: only_at_def)
  have d: "only_at 1 1" by (simp add: only_at_def)
  show ?thesis
    using C5_cancellation_aborts [OF a b c d]
    by (simp add: backoff_def example_config_def failed_attempt_def register_calls_def)
qed

section \<open>The heartbeat loop\<close>

lemma retry_no_heartbeat:
  "count_list (snd (registerWithRetry cfg f c)) Heartbeat_call = 0"
proof -
  have "list_all retry_event evs \<Longrightarrow> count_list evs Heartbeat_call = 0" for evs
    by (induction evs) auto
  then show ?thesis
    unfolding registerWithRetry_def using retry_from_events by blast
qed

lemma loop_iteration_tick_eq:
  "loop_iteration (On_tick True f c) r =
     (False,
      r\<lparr>trace := trace r @ Heartbeat_call # Log Log_heartbeat_failed #
          snd (registerWithRetry (config r) f c) @
          (case fst (registerWithRetry (config r) f c) of
             Some e \<Rightarrow> [Log Log_reregistration_failed, Set_gauge 0]
           | None \<Rightarrow> [Log Log_reregistered, Set_gauge 1])\<rparr>)"
  by (simp split: prod.splits)

lemma loop_iteration_heartbeats:
  assumes "loop_iteration sc r = (ret, r')"
  shows "count_list (trace r') Heartbeat_call =
           count_list (trace r) Heartbeat_call + (if is_tick sc then 1 else 0)"
    and "ret = (sc = On_stopHeartbeat)"
proof -
  have "count_list (trace r') Heartbeat_call =
           count_list (trace r) Heartbeat_call + (if is_tick sc then 1 else 0) \<and>
        ret = (sc = On_stopHeartbeat)"
  proof (cases sc)
    case (On_tick h f c)
    with assms retry_no_heartbeat [of "config r" f c] show ?thesis
      by (cases h) (auto split: prod.splits option.splits)
  next
    case On_stopHeartbeat
    with assms show ?thesis by auto
  next
    case On_ctx_done
    with assms show ?thesis by auto
  qed
  then show "count_list (trace r') Heartbeat_call =
           count_list (trace r) Heartbeat_call + (if is_tick sc then 1 else 0)"
    and "ret = (sc = On_stopHeartbeat)" by simp_all
qed

lemma loop_never_exits_by_itself:
  assumes "On_stopHeartbeat \<notin> set scs"
  shows "\<not> fst (runHeartbeatLoop scs r) \<and>
         count_list (trace (snd (runHeartbeatLoop scs r))) Heartbeat_call =
           count_list (trace r) Heartbeat_call + length (filter is_tick scs)"
  using assms
proof (induction scs arbitrary: r)
  case Nil
  then show ?case by simp
next
  case (Cons sc scs)
  obtain ret r' where it: "loop_iteration sc r = (ret, r')"
    by (cases "loop_iteration sc r")
  from Cons.prems have ne: "sc \<noteq> On_stopHeartbeat" and rest: "On_stopHeartbeat \<notin> set scs"
    by auto
  from loop_iteration_heartbeats [OF it] ne have nr: "\<not> ret"
    and h: "count_list (trace r') Heartbeat_call =
           count_list (trace r) Heartbeat_call + (if is_tick sc then 1 else 0)"
    by simp_all
  from Cons.IH [OF rest, of r'] it nr h show ?case
    by simp
qed

text \<open>
  C7: a ticker arm whose heartbeat call fails runs registerWithRetry, the very function
  \<^verbatim>\<open>Start\<close> runs for the initial registration, on the Registrar's configuration, and
  the loop then goes on with its next \<^verbatim>\<open>select\<close> whatever registerWithRetry returned.
  When every attempt fails and the context is not cancelled, that is \<^verbatim>\<open>MaxRetries\<close>
  register calls, not one. As long as the arm of \<^verbatim>\<open>stopHeartbeat\<close> is not taken the
  loop has not returned, and every ticker arm has issued its heartbeat call.
\<close>

theorem C7_heartbeat_failure_reregisters:
  "runHeartbeatLoop (On_tick True register_fails ctx_done # scs) r =
     runHeartbeatLoop scs
       (r\<lparr>trace := trace r @ Heartbeat_call # Log Log_heartbeat_failed #
          snd (registerWithRetry (config r) register_fails ctx_done) @
          (case fst (registerWithRetry (config r) register_fails ctx_done) of
             Some e \<Rightarrow> [Log Log_reregistration_failed, Set_gauge 0]
           | None \<Rightarrow> [Log Log_reregistered, Set_gauge 1])\<rparr>) \<and>
   trace (Start register_fails ctx_done r) =
     trace r @ Log Log_initial_attempt #
       snd (registerWithRetry (config r) register_fails ctx_done) @
       (case fst (registerWithRetry (config r) register_fails ctx_done) of
          Some e \<Rightarrow> [Log Log_initial_failed, Set_gauge 0]
        | None \<Rightarrow> [Log Log_initial_registered, Set_gauge 1]) @ [Go_runHeartbeatLoop] \<and>
   ((\<forall>j. register_fails j) \<and> (\<forall>j. \<not> ctx_done j) \<longrightarrow>
      register_calls (trace (snd (loop_iteration (On_tick True register_fails ctx_done) r))) =
        register_calls (trace r) + nat (MaxRetries (config r))) \<and>
   (On_stopHeartbeat \<notin> set scs \<longrightarrow>
      \<not> fst (runHeartbeatLoop scs r) \<and>
      count_list (trace (snd (runHeartbeatLoop scs r))) Heartbeat_call =
        count_list (trace r) Heartbeat_call + length (filter is_tick scs))"
proof -
  have 1: "runHeartbeatLoop (On_tick True register_fails ctx_done # scs) r =
     runHeartbeatLoop scs
       (r\<lparr>trace := trace r @ Heartbeat_call # Log Log_heartbeat_failed #
          snd (registerWithRetry (config r) register_fails ctx_done) @
          (case fst (registerWithRetry (config r) register_fails ctx_done) of
             Some e \<Rightarrow> [Log Log_reregistration_failed, Set_gauge 0]
           | None \<Rightarrow> [Log Log_reregistered, Set_gauge 1])\<rparr>)"
    by (simp split: prod.splits)
  have 2: "trace (Start register_fails ctx_done r) =
     trace r @ Log Log_initial_attempt #
       snd (registerWithRetry (config r) register_fails ctx_done) @
       (case fst (registerWithRetry (config r) register_fails ctx_done) of
          Some e \<Rightarrow> [Log Log_initial_failed, Set_gauge 0]
        | None \<Rightarrow> [Log Log_initial_registered, Set_gauge 1]) @ [Go_runHeartbeatLoop]"
    by (simp add: Start_def split: prod.splits)
  have 3: "register_calls (trace (snd (loop_iteration (On_tick True register_fails ctx_done) r))) =
        register_calls (trace r) + nat (MaxRetries (config r))"
    if "(\<forall>j. register_fails j) \<and> (\<forall>j. \<not> ctx_done j)"
  proof -
    from that have a: "\<forall>j. register_fails j" and b: "\<forall>j. \<not> ctx_done j" by simp_all
    have "register_calls (xs @ Heartbeat_call # Log Log_heartbeat_failed # ys @
        [Log Log_reregistration_failed, Set_gauge 0]) = register_calls xs + register_calls ys"
      for xs ys by (simp add: register_calls_def)
    then show ?thesis
      unfolding loop_iteration_tick_eq snd_conv
      using registerWithRetry_all_fail(1,2) [OF a b, of "config r"] by simp
  qed
  show ?thesis
    using 1 2 3 loop_never_exits_by_itself [of scs r] by blast
qed

text \<open>
  C7 on a run of two ticks with \<^verbatim>\<open>MaxRetries = 2\<close>: the first heartbeat fails and both
  register attempts fail, the second tick still sends its heartbeat.
\<close>

theorem C7_heartbeat_failure_reregisters_witness:
  "runHeartbeatLoop [On_tick True always never, On_tick False always never] (example_registrar 2) =
     (False,
      (example_registrar 2)\<lparr>trace :=
        [Heartbeat_call, Log Log_heartbeat_failed,
         Register_call, Log (Log_attempt_failed 1 second), Timer_fired second,
         Register_call, Log (Log_attempt_failed 2 (2 * second)), Timer_fired (2 * second),
         Log Log_reregistration_failed, Set_gauge 0,
         Heartbeat_call, Log Log_heartbeat_sent, Set_gauge 1]\<rparr>) \<and>
   register_calls (trace (snd (loop_iteration (On_tick True always never) (example_registrar 2)))) = 2 \<and>
   count_list (trace (snd (runHeartbeatLoop [On_tick True always never, On_tick False always never]
     (example_registrar 2)))) Heartbeat_call = 2"
proof -
  have a: "(\<forall>j. always j) \<and> (\<forall>j. \<not> never j)"
    by (simp add: always_def never_def)
  have b: "On_stopHeartbeat \<notin> set [On_tick False always never]"
    by simp
  have c: "On_stopHeartbeat \<notin> set [On_tick True always never, On_tick False always never]"
    by simp
  have r: "registerWithRetry (example_config 2) always never =
     (Some (Err_retries_exhausted 2),
      [Register_call, Log (Log_attempt_failed 1 second), Timer_fired second,
       Register_call, Log (Log_attempt_failed 2 (2 * second)), Timer_fired (2 * second)])"
    by (simp add: registerWithRetry_def retry_from.simps example_config_def always_def never_def
        backoff_def)
  have g: "config (example_registrar 2) = example_config 2" "trace (example_registrar 2) = []"
    by (simp_all add: example_registrar_def new_Registrar_def)
  show ?thesis
    using C7_heartbeat_failure_reregisters
            [of always never "[On_tick False always never]" "example_registrar 2"]
          C7_heartbeat_failure_reregisters
            [of always never "[On_tick True always never, On_tick False always never]"
                "example_registrar 2"]
          a b c
    by (simp add: r g register_calls_def)
qed

text \<open>
  C3 does not hold of the code: the arm \<^verbatim>\<open>case <-ctx.Done()\<close> (lines 136 to 138) logs
  ``stopped due to context cancellation'' and has no \<^verbatim>\<open>return\<close>, unlike the arm of
  \<^verbatim>\<open>stopHeartbeat\<close> (lines 133 to 135). After a successful \<^verbatim>\<open>Start\<close>, with the context
  cancelled and the \<^verbatim>\<open>select\<close> taking first the arm of \<^verbatim>\<open>ctx.Done()\<close> and then the
  ticker's, the loop has not returned (the WaitGroup counter is still 1), and after the
  log line of the cancellation it has issued a heartbeat call and a register call.
\<close>

theorem C3_loop_survives_cancellation:
  "runHeartbeatLoop [On_ctx_done, On_tick True always always] (Start never never (example_registrar 3)) =
     (False,
      (example_registrar 3)\<lparr>wg := 1, trace :=
        [Log Log_initial_attempt, Register_call, Log Log_initial_registered, Set_gauge 1,
         Go_runHeartbeatLoop,
         Log Log_loop_ctx_cancelled,
         Heartbeat_call, Log Log_heartbeat_failed,
         Register_call, Log (Log_attempt_failed 1 second), Ctx_done_in_wait second,
         Log Log_reregistration_failed, Set_gauge 0]\<rparr>) \<and>
   map_option loop (run example_cancelled (boot (example_registrar 3))) = Some In_select \<and>
   map_option (\<lambda>s. wg (registrar s)) (run example_cancelled (boot (example_registrar 3))) = Some 1 \<and>
   map_option (\<lambda>s. after_first (Log Log_loop_ctx_cancelled) (trace (registrar s)))
       (run example_cancelled (boot (example_registrar 3))) =
     Some [Heartbeat_call, Log Log_heartbeat_failed,
           Register_call, Log (Log_attempt_failed 1 second), Ctx_done_in_wait second,
           Log Log_reregistration_failed, Set_gauge 0]"
  by (simp add: example_cancelled_def example_registrar_def example_config_def
      new_Registrar_def boot_def Start_def registerWithRetry_def retry_from.simps always_def never_def
      backoff_def after_first_def)

section \<open>Stop and the goroutine\<close>

lemma sys_inv_boot: "sys_inv (boot (new_Registrar i cl cfg))"
  by (simp add: sys_inv_def boot_def new_Registrar_def)

lemma quiet_Start: "quiet (trace r) \<Longrightarrow> quiet (trace (Start register_fails ctx_done r))"
  by (auto simp: Start_def quiet_Cons split: prod.splits option.splits dest: quiet_retry')

lemma wg_Start: "wg (Start register_fails ctx_done r) = wg r + 1"
  by (simp add: Start_def split: prod.splits)

lemma closed_Start: "stopHeartbeat_closed (Start register_fails ctx_done r) = stopHeartbeat_closed r"
  by (simp add: Start_def split: prod.splits)

lemma loop_iteration_tick:
  assumes "loop_iteration (On_tick h f c) r = (ret, r')"
  shows "\<not> ret \<and> wg r' = wg r \<and> stopHeartbeat_closed r' = stopHeartbeat_closed r \<and>
         (\<exists>evs. trace r' = trace r @ evs \<and> quiet evs)"
  using assms
  by (auto simp: quiet_Cons split: if_splits prod.splits option.splits dest: quiet_retry')

lemma loop_iteration_effect:
  assumes "loop_iteration sc r = (ret, r')"
  shows "stopHeartbeat_closed r' = stopHeartbeat_closed r \<and>
         (\<exists>evs. trace r' = trace r @ evs \<and> quiet evs \<and> (ret \<longrightarrow> Loop_returned \<in> set evs)) \<and>
         wg r' = (if ret then wg r - 1 else wg r)"
proof (cases sc)
  case (On_tick h f c)
  with assms loop_iteration_tick [of h f c r ret r'] show ?thesis by auto
next
  case On_stopHeartbeat
  with assms show ?thesis by (auto simp: quiet_Cons)
next
  case On_ctx_done
  with assms show ?thesis by (auto simp: quiet_Cons)
qed

lemma step_Call_Start:
  assumes "sys_inv s" and "step (Call_Start f c) s = Some s'"
  shows "sys_inv s'"
proof -
  from assms(2) have k: "caller s = Constructed"
    and s': "s' = s\<lparr>registrar := Start f c (registrar s), loop := In_select, caller := Started\<rparr>"
    by (simp_all split: if_splits)
  from assms(1) k have "loop s = Not_launched" "wg (registrar s) = 0"
    "\<not> stopHeartbeat_closed (registrar s)" "quiet (trace (registrar s))"
    by (simp_all add: sys_inv_def)
  then show ?thesis
    unfolding s' by (simp add: sys_inv_def wg_Start closed_Start quiet_Start)
qed

lemma step_Select:
  assumes "sys_inv s" and "step (Select sc) s = Some s'"
  shows "sys_inv s'"
proof -
  from assms(2) have l: "loop s = In_select" and s': "s' = s\<lparr>loop := In_case sc\<rparr>"
    by (simp_all split: if_splits)
  from assms(1) l show ?thesis
    unfolding s' by (simp add: sys_inv_def)
qed

lemma step_Finish_case:
  assumes "sys_inv s" and "step Finish_case s = Some s'"
  shows "sys_inv s'"
proof -
  from assms(2) obtain sc ret r' where
    l: "loop s = In_case sc" and it: "loop_iteration sc (registrar s) = (ret, r')"
    and s': "s' = s\<lparr>registrar := r', loop := (if ret then Returned else In_select)\<rparr>"
    by (auto split: goroutine.splits prod.splits)
  from loop_iteration_effect [OF it] obtain evs where
    c: "stopHeartbeat_closed r' = stopHeartbeat_closed (registrar s)"
    and t: "trace r' = trace (registrar s) @ evs" and q: "quiet evs"
    and e: "ret \<longrightarrow> Loop_returned \<in> set evs"
    and w: "wg r' = (if ret then wg (registrar s) - 1 else wg (registrar s))"
    by blast
  from assms(1) l have ns: "caller s \<noteq> Stopped" "caller s \<noteq> Constructed"
    and w0: "wg (registrar s) = 1" and q0: "quiet (trace (registrar s))"
    and o: "caller s = Started \<longrightarrow> \<not> stopHeartbeat_closed (registrar s)"
    and cs: "caller s = In_Wait \<longrightarrow>
      stopHeartbeat_closed (registrar s) \<and> Close_stopHeartbeat \<in> set (trace (registrar s))"
    by (auto simp: sys_inv_def)
  show ?thesis
  proof (cases ret)
    case True
    then have s'': "s' = s\<lparr>registrar := r', loop := Returned\<rparr>"
      using s' by simp
    have "wg r' = 0" using w w0 True by simp
    with ns q0 o cs e True show ?thesis
      unfolding s'' by (cases "caller s") (simp_all add: sys_inv_def c t q)
  next
    case False
    then have s'': "s' = s\<lparr>registrar := r', loop := In_select\<rparr>"
      using s' by simp
    have "wg r' = 1" using w w0 False by simp
    with ns q0 o cs show ?thesis
      unfolding s'' by (cases "caller s") (simp_all add: sys_inv_def c t q)
  qed
qed

lemma step_Cancel_ctx:
  assumes "sys_inv s" and "step Cancel_ctx s = Some s'"
  shows "sys_inv s'"
proof -
  from assms(2) have s': "s' = s\<lparr>ctx_cancelled := True\<rparr>"
    by simp
  from assms(1) show ?thesis
    unfolding s' by (simp add: sys_inv_def)
qed

lemma step_Call_Stop:
  assumes "sys_inv s" and "step Call_Stop s = Some s'"
  shows "sys_inv s'"
proof -
  from assms(2) have k: "caller s = Constructed \<or> caller s = Started"
    by (simp split: if_splits)
  with assms(1) have o: "\<not> stopHeartbeat_closed (registrar s)" and q: "quiet (trace (registrar s))"
    and w: "wg (registrar s) = (if active (loop s) then 1 else 0)"
    and e: "loop s = Returned \<longrightarrow> Loop_returned \<in> set (trace (registrar s))"
    by (auto simp: sys_inv_def)
  from assms(2) k o have s': "s' = s\<lparr>registrar := (registrar s)\<lparr>stopHeartbeat_closed := True,
        trace := trace (registrar s) @ [Log Log_shutdown, Close_stopHeartbeat]\<rparr>, caller := In_Wait\<rparr>"
    by (auto simp: Stop_before_Wait_def)
  show ?thesis
    unfolding s' using q w e by (simp add: sys_inv_def quiet_Cons)
qed

lemma step_Wait_returns:
  assumes "sys_inv s" and "step (Wait_returns d c) s = Some s'"
  shows "sys_inv s'"
proof -
  from assms(2) have k: "caller s = In_Wait" and w: "wg (registrar s) = 0"
    and s': "s' = s\<lparr>registrar := Stop_after_Wait d c (registrar s), caller := Stopped\<rparr>"
    by (simp_all split: if_splits)
  from assms(1) k w have a: "\<not> active (loop s)" and q: "quiet (trace (registrar s))"
    and cs: "Close_stopHeartbeat \<in> set (trace (registrar s))"
    and e: "loop s = Returned \<longrightarrow> Loop_returned \<in> set (trace (registrar s))"
    by (simp_all add: sys_inv_def split: if_splits)
  have t: "trace (Stop_after_Wait d c (registrar s)) = trace (registrar s) @ shutdown_events d c"
    by (simp add: Stop_after_Wait_def shutdown_events_def)
  have g: "wg (Stop_after_Wait d c (registrar s)) = wg (registrar s)"
    by (simp add: Stop_after_Wait_def)
  have "\<exists>pre d' c'. trace (registrar s) @ shutdown_events d c = pre @ shutdown_events d' c' \<and>
      quiet pre \<and> Close_stopHeartbeat \<in> set pre \<and> (loop s = Returned \<longrightarrow> Loop_returned \<in> set pre)"
    using q cs e by blast
  then show ?thesis
    unfolding s' using a w by (simp add: sys_inv_def t g)
qed

lemma step_inv:
  assumes "sys_inv s" and "step a s = Some s'"
  shows "sys_inv s'"
proof (cases a)
  case (Call_Start f c)
  with assms show ?thesis using step_Call_Start by blast
next
  case (Select sc)
  with assms show ?thesis using step_Select by blast
next
  case Finish_case
  with assms show ?thesis using step_Finish_case by blast
next
  case Cancel_ctx
  with assms show ?thesis using step_Cancel_ctx by blast
next
  case Call_Stop
  with assms show ?thesis using step_Call_Stop by blast
next
  case (Wait_returns d c)
  with assms show ?thesis using step_Wait_returns by blast
qed

lemma run_inv: "sys_inv s \<Longrightarrow> run acts s = Some s' \<Longrightarrow> sys_inv s'"
proof (induction acts arbitrary: s)
  case Nil
  then show ?case by simp
next
  case (Cons a acts)
  from Cons.prems(2) obtain s1 where a: "step a s = Some s1" and r: "run acts s1 = Some s'"
    by (auto split: option.splits)
  from step_inv [OF Cons.prems(1) a] r show ?case
    by (rule Cons.IH)
qed

lemma shutdown_events_Cons:
  "shutdown_events d c = Deregister_call # tl (shutdown_events d c)"
  by (simp add: shutdown_events_def)

lemma tl_shutdown_events:
  "Close_call \<in> set (tl (shutdown_events d c)) \<and>
   Heartbeat_call \<notin> set (tl (shutdown_events d c)) \<and>
   Register_call \<notin> set (tl (shutdown_events d c)) \<and>
   Deregister_call \<notin> set (tl (shutdown_events d c)) \<and>
   count_list (tl (shutdown_events d c)) Close_call = 1"
  by (simp add: shutdown_events_def)

lemma quiet_counts: "quiet tr \<Longrightarrow> count_list tr Deregister_call = 0 \<and> count_list tr Close_call = 0"
  by (simp add: quiet_def)

lemma stopped_trace:
  assumes "quiet pre"
  shows "count_list (pre @ shutdown_events d c) Deregister_call = 1"
    and "count_list (pre @ shutdown_events d c) Close_call = 1"
    and "before_first Deregister_call (pre @ shutdown_events d c) = pre"
    and "after_first Deregister_call (pre @ shutdown_events d c) = tl (shutdown_events d c)"
proof -
  have n: "Deregister_call \<notin> set pre" using assms by (simp add: quiet_def)
  show "count_list (pre @ shutdown_events d c) Deregister_call = 1"
    using quiet_counts [OF assms] by (simp add: shutdown_events_def)
  show "count_list (pre @ shutdown_events d c) Close_call = 1"
    using quiet_counts [OF assms] by (simp add: shutdown_events_def)
  show "before_first Deregister_call (pre @ shutdown_events d c) = pre"
    by (subst shutdown_events_Cons) (rule before_first_append [OF n])
  show "after_first Deregister_call (pre @ shutdown_events d c) = tl (shutdown_events d c)"
    by (subst shutdown_events_Cons) (rule after_first_append [OF n])
qed

lemma sys_inv_active:
  assumes "sys_inv s" and "active (loop s)"
  shows "step (Wait_returns d c) s = None" and "quiet (trace (registrar s))"
proof -
  from assms have "wg (registrar s) = 1" "caller s \<noteq> Stopped"
    by (auto simp: sys_inv_def)
  then show "step (Wait_returns d c) s = None" by simp
  from assms \<open>caller s \<noteq> Stopped\<close> show "quiet (trace (registrar s))"
    by (simp add: sys_inv_def)
qed

lemma sys_inv_counts:
  assumes "sys_inv s"
  shows "count_list (trace (registrar s)) Deregister_call \<le> 1"
    and "count_list (trace (registrar s)) Close_call \<le> 1"
proof -
  have "count_list (trace (registrar s)) Deregister_call \<le> 1 \<and>
        count_list (trace (registrar s)) Close_call \<le> 1"
  proof (cases "caller s = Stopped")
    case True
    with assms obtain pre d c where
      "trace (registrar s) = pre @ shutdown_events d c" "quiet pre"
      by (auto simp: sys_inv_def)
    then show ?thesis using stopped_trace(1,2) [of pre d c] by simp
  next
    case False
    with assms have "quiet (trace (registrar s))" by (simp add: sys_inv_def)
    then show ?thesis using quiet_counts by simp
  qed
  then show "count_list (trace (registrar s)) Deregister_call \<le> 1"
    and "count_list (trace (registrar s)) Close_call \<le> 1" by simp_all
qed

lemma sys_inv_waiting:
  assumes "sys_inv s" and "caller s = In_Wait" and "\<not> active (loop s)"
  shows "step (Wait_returns d c) s =
     Some (s\<lparr>registrar := Stop_after_Wait d c (registrar s), caller := Stopped\<rparr>)"
proof -
  from assms have "wg (registrar s) = 0" by (simp add: sys_inv_def)
  with assms(2) show ?thesis by simp
qed

lemma sys_inv_stopped:
  assumes "sys_inv s" and "caller s = Stopped"
  shows "\<not> active (loop s) \<and>
     count_list (trace (registrar s)) Deregister_call = 1 \<and>
     count_list (trace (registrar s)) Close_call = 1 \<and>
     Close_stopHeartbeat \<in> set (before_first Deregister_call (trace (registrar s))) \<and>
     (loop s = Returned \<longrightarrow>
        Loop_returned \<in> set (before_first Deregister_call (trace (registrar s)))) \<and>
     Close_call \<in> set (after_first Deregister_call (trace (registrar s))) \<and>
     Heartbeat_call \<notin> set (after_first Deregister_call (trace (registrar s))) \<and>
     Register_call \<notin> set (after_first Deregister_call (trace (registrar s)))"
proof -
  from assms obtain pre d c where
    t: "trace (registrar s) = pre @ shutdown_events d c" and q: "quiet pre"
    and cs: "Close_stopHeartbeat \<in> set pre"
    and e: "loop s = Returned \<longrightarrow> Loop_returned \<in> set pre"
    and a: "\<not> active (loop s)"
    by (auto simp: sys_inv_def)
  show ?thesis
    unfolding t stopped_trace [OF q]
    using a cs e tl_shutdown_events [of d c] by simp
qed

lemma finish_from_select:
  assumes "sys_inv s" and "caller s = In_Wait" and "loop s = In_select"
  shows "map_option caller (run [Select On_stopHeartbeat, Finish_case, Wait_returns d c] s) =
           Some Stopped"
proof -
  from assms have cl: "stopHeartbeat_closed (registrar s)" and w: "wg (registrar s) = 1"
    by (simp_all add: sys_inv_def)
  with assms(2,3) show ?thesis by simp
qed

lemma finish_from_case:
  assumes "sys_inv s" and "caller s = In_Wait" and "loop s = In_case sc"
  shows "map_option caller (run (finish_Stop (In_case sc) d c) s) = Some Stopped"
proof -
  obtain ret r' where it: "loop_iteration sc (registrar s) = (ret, r')"
    by (cases "loop_iteration sc (registrar s)")
  define s1 where "s1 = s\<lparr>registrar := r', loop := (if ret then Returned else In_select)\<rparr>"
  have st: "step Finish_case s = Some s1"
    using assms(3) it by (simp add: s1_def)
  have i1: "sys_inv s1"
    using assms(1) st by (rule step_inv)
  have c1: "caller s1 = In_Wait"
    using assms(2) by (simp add: s1_def)
  have r: "ret = (sc = On_stopHeartbeat)"
    using loop_iteration_heartbeats(2) [OF it] .
  show ?thesis
  proof (cases "sc = On_stopHeartbeat")
    case True
    with r have l1: "loop s1 = Returned" by (simp add: s1_def)
    with i1 c1 have "wg (registrar s1) = 0" by (simp add: sys_inv_def)
    with c1 st True show ?thesis by simp
  next
    case False
    with r have l1: "loop s1 = In_select" by (simp add: s1_def)
    have f: "finish_Stop (In_case sc) d c =
        [Finish_case, Select On_stopHeartbeat, Finish_case, Wait_returns d c]"
      using False by (cases sc) simp_all
    have "run (finish_Stop (In_case sc) d c) s =
        run [Select On_stopHeartbeat, Finish_case, Wait_returns d c] s1"
      unfolding f using st by simp
    then show ?thesis
      using finish_from_select [OF i1 c1 l1, of d c] by simp
  qed
qed

lemma sys_inv_completes:
  assumes "sys_inv s" and "caller s = In_Wait"
  shows "map_option caller (run (finish_Stop (loop s) d c) s) = Some Stopped"
proof (cases "loop s")
  case Not_launched
  with assms have "wg (registrar s) = 0" by (simp add: sys_inv_def)
  with assms(2) Not_launched show ?thesis by simp
next
  case In_select
  with finish_from_select [OF assms In_select, of d c] show ?thesis by simp
next
  case (In_case sc)
  with finish_from_case [OF assms In_case, of d c] show ?thesis by simp
next
  case Returned
  with assms have "wg (registrar s) = 0" by (simp add: sys_inv_def)
  with assms(2) Returned show ?thesis by simp
qed

text \<open>
  C6: in every state that the Registrar and its goroutine can reach from a newly
  constructed Registrar,
  \<^item> while the goroutine is alive \<^verbatim>\<open>r.wg.Wait()\<close> cannot return, and neither the
    deregister call nor \<^verbatim>\<open>Close\<close> has been issued;
  \<^item> the trace holds at most one deregister call and at most one \<^verbatim>\<open>Close\<close>;
  \<^item> once \<^verbatim>\<open>Stop\<close> waits and the goroutine has returned, \<^verbatim>\<open>Stop\<close> runs to its end
    whether or not \<^verbatim>\<open>Deregister\<close> and \<^verbatim>\<open>Close\<close> fail; a failed deregistration is
    logged and followed by \<^verbatim>\<open>Close\<close>;
  \<^item> while \<^verbatim>\<open>Stop\<close> waits, the schedule \<open>finish_Stop\<close> is possible and ends with
    \<^verbatim>\<open>Stop\<close> returned: the closed channel lets the goroutine return;
  \<^item> when \<^verbatim>\<open>Stop\<close> has returned, the goroutine is not alive, exactly one deregister
    call and one \<^verbatim>\<open>Close\<close> were made, the closing of \<^verbatim>\<open>stopHeartbeat\<close> and the
    goroutine's return precede the deregister call, \<^verbatim>\<open>Close\<close> follows it, and no
    heartbeat or register call follows it.
\<close>

theorem C6_stop_waits_for_loop:
  assumes "run acts (boot (new_Registrar i cl cfg)) = Some s"
  shows
   "(active (loop s) \<longrightarrow>
       step (Wait_returns d c) s = None \<and>
       Deregister_call \<notin> set (trace (registrar s)) \<and>
       Close_call \<notin> set (trace (registrar s))) \<and>
    count_list (trace (registrar s)) Deregister_call \<le> 1 \<and>
    count_list (trace (registrar s)) Close_call \<le> 1 \<and>
    (caller s = In_Wait \<and> \<not> active (loop s) \<longrightarrow>
       step (Wait_returns d c) s =
         Some (s\<lparr>registrar := Stop_after_Wait d c (registrar s), caller := Stopped\<rparr>)) \<and>
    trace (Stop_after_Wait True c (registrar s)) =
      trace (registrar s) @
      [Deregister_call, Log Log_deregistration_failed, Close_call] @
      (if c then [Log Log_close_failed] else []) @ [Set_gauge 0, Log Log_registrar_stopped] \<and>
    (caller s = In_Wait \<longrightarrow>
       map_option caller (run (finish_Stop (loop s) d c) s) = Some Stopped) \<and>
    (caller s = Stopped \<longrightarrow>
       \<not> active (loop s) \<and>
       count_list (trace (registrar s)) Deregister_call = 1 \<and>
       count_list (trace (registrar s)) Close_call = 1 \<and>
       Close_stopHeartbeat \<in> set (before_first Deregister_call (trace (registrar s))) \<and>
       (loop s = Returned \<longrightarrow>
          Loop_returned \<in> set (before_first Deregister_call (trace (registrar s)))) \<and>
       Close_call \<in> set (after_first Deregister_call (trace (registrar s))) \<and>
       Heartbeat_call \<notin> set (after_first Deregister_call (trace (registrar s))) \<and>
       Register_call \<notin> set (after_first Deregister_call (trace (registrar s))))"
proof -
  have i: "sys_inv s"
    using sys_inv_boot assms by (rule run_inv)
  have 1: "active (loop s) \<longrightarrow>
       step (Wait_returns d c) s = None \<and>
       Deregister_call \<notin> set (trace (registrar s)) \<and>
       Close_call \<notin> set (trace (registrar s))"
    using sys_inv_active [OF i] by (auto simp: quiet_def)
  have 2: "caller s = In_Wait \<and> \<not> active (loop s) \<longrightarrow>
       step (Wait_returns d c) s =
         Some (s\<lparr>registrar := Stop_after_Wait d c (registrar s), caller := Stopped\<rparr>)"
    using sys_inv_waiting [OF i] by blast
  have 3: "trace (Stop_after_Wait True c (registrar s)) =
      trace (registrar s) @
      [Deregister_call, Log Log_deregistration_failed, Close_call] @
      (if c then [Log Log_close_failed] else []) @ [Set_gauge 0, Log Log_registrar_stopped]"
    by (simp add: Stop_after_Wait_def)
  have 4: "caller s = In_Wait \<longrightarrow>
       map_option caller (run (finish_Stop (loop s) d c) s) = Some Stopped"
    using sys_inv_completes [OF i] by blast
  show ?thesis
    using 1 sys_inv_counts [OF i] 2 3 4 sys_inv_stopped [OF i] by blast
qed

lemmas example_simps =
  example_waiting_def example_shutdown_def example_registrar_def example_config_def
  new_Registrar_def boot_def Start_def registerWithRetry_def retry_from.simps always_def never_def
  Stop_before_Wait_def Stop_after_Wait_def backoff_def

text \<open>
  A run for C6: \<^verbatim>\<open>Start\<close> (the registration fails), a tick begins, \<^verbatim>\<open>Stop\<close> is called
  and has to wait; the tick ends, the goroutine takes the arm of \<^verbatim>\<open>stopHeartbeat\<close> and
  returns, and \<^verbatim>\<open>Stop\<close> finishes although the deregistration fails.
\<close>

theorem C6_stop_waits_for_loop_witness:
  "caller (the (run example_waiting (boot (example_registrar 1)))) = In_Wait \<and>
   active (loop (the (run example_waiting (boot (example_registrar 1))))) \<and>
   step (Wait_returns True False) (the (run example_waiting (boot (example_registrar 1)))) = None \<and>
   map_option caller
     (run (finish_Stop (loop (the (run example_waiting (boot (example_registrar 1))))) True False)
        (the (run example_waiting (boot (example_registrar 1))))) = Some Stopped \<and>
   caller (the (run example_shutdown (boot (example_registrar 1)))) = Stopped \<and>
   loop (the (run example_shutdown (boot (example_registrar 1)))) = Returned \<and>
   trace (registrar (the (run example_shutdown (boot (example_registrar 1))))) =
     [Log Log_initial_attempt, Register_call, Log (Log_attempt_failed 1 second),
      Timer_fired second, Log Log_initial_failed, Set_gauge 0, Go_runHeartbeatLoop,
      Log Log_shutdown, Close_stopHeartbeat,
      Heartbeat_call, Log Log_heartbeat_failed, Register_call,
      Log (Log_attempt_failed 1 second), Timer_fired second,
      Log Log_reregistration_failed, Set_gauge 0,
      Log Log_loop_stopped, Loop_returned,
      Deregister_call, Log Log_deregistration_failed, Close_call,
      Set_gauge 0, Log Log_registrar_stopped] \<and>
   count_list (trace (registrar (the (run example_shutdown (boot (example_registrar 1))))))
     Deregister_call = 1 \<and>
   after_first Deregister_call
     (trace (registrar (the (run example_shutdown (boot (example_registrar 1)))))) =
     [Log Log_deregistration_failed, Close_call, Set_gauge 0, Log Log_registrar_stopped]"
proof -
  define w where "w = the (run example_waiting (boot (example_registrar 1)))"
  define s where "s = the (run example_shutdown (boot (example_registrar 1)))"
  have rw: "run example_waiting (boot (new_Registrar example_instance
      (NewHTTPClient ''http://registry:8080'' (5 * second)) (example_config 1))) = Some w"
    unfolding w_def by (simp add: example_simps)
  have rs: "run example_shutdown (boot (new_Registrar example_instance
      (NewHTTPClient ''http://registry:8080'' (5 * second)) (example_config 1))) = Some s"
    unfolding s_def by (simp add: example_simps)
  have cw: "caller w = In_Wait" and aw: "active (loop w)"
    unfolding w_def by (simp_all add: example_simps)
  have cs: "caller s = Stopped" and ls: "loop s = Returned"
    unfolding s_def by (simp_all add: example_simps)
  have ts: "trace (registrar s) =
     [Log Log_initial_attempt, Register_call, Log (Log_attempt_failed 1 second),
      Timer_fired second, Log Log_initial_failed, Set_gauge 0, Go_runHeartbeatLoop,
      Log Log_shutdown, Close_stopHeartbeat,
      Heartbeat_call, Log Log_heartbeat_failed, Register_call,
      Log (Log_attempt_failed 1 second), Timer_fired second,
      Log Log_reregistration_failed, Set_gauge 0,
      Log Log_loop_stopped, Loop_returned,
      Deregister_call, Log Log_deregistration_failed, Close_call,
      Set_gauge 0, Log Log_registrar_stopped]"
    unfolding s_def by (simp add: example_simps)
  have a: "after_first Deregister_call (trace (registrar s)) =
     [Log Log_deregistration_failed, Close_call, Set_gauge 0, Log Log_registrar_stopped]"
    unfolding ts by (simp add: after_first_def)
  show ?thesis
    unfolding w_def [symmetric] s_def [symmetric]
    using C6_stop_waits_for_loop [OF rw, of True False]
      C6_stop_waits_for_loop [OF rs, of True False] cw aw cs ls ts a
    by simp
qed


section \<open>Start\<close>

text \<open>
  C8: whatever the registry and the context do during the initial registration,
  \<^verbatim>\<open>Start\<close> ends with \<^verbatim>\<open>r.wg.Add(1)\<close> and the \<^verbatim>\<open>go\<close> statement, once, after all events
  of the registration; the goroutine is then in its \<^verbatim>\<open>select\<close>, the ticker's arm can
  be taken, and taking it issues a heartbeat call.
\<close>

theorem C8_start_launches_loop:
  "wg (Start register_fails ctx_done r) = wg r + 1 \<and>
   last (trace (Start register_fails ctx_done r)) = Go_runHeartbeatLoop \<and>
   count_list (trace (Start register_fails ctx_done r)) Go_runHeartbeatLoop =
     count_list (trace r) Go_runHeartbeatLoop + 1 \<and>
   step (Call_Start register_fails ctx_done) (boot r) =
     Some \<lparr>registrar = Start register_fails ctx_done r, loop = In_select, caller = Started,
           ctx_cancelled = False\<rparr> \<and>
   map_option loop (run [Call_Start register_fails ctx_done, Select (On_tick h f c)] (boot r)) =
     Some (In_case (On_tick h f c)) \<and>
   map_option (\<lambda>s. count_list (trace (registrar s)) Heartbeat_call)
       (run [Call_Start register_fails ctx_done, Select (On_tick h f c), Finish_case] (boot r)) =
     Some (count_list (trace r) Heartbeat_call + 1)"
proof -
  have n: "count_list (snd (registerWithRetry cfg register_fails ctx_done)) Go_runHeartbeatLoop = 0"
    for cfg
  proof -
    have "list_all retry_event evs \<Longrightarrow> count_list evs Go_runHeartbeatLoop = 0" for evs
      by (induction evs) auto
    then show ?thesis
      unfolding registerWithRetry_def using retry_from_events by blast
  qed
  have 1: "wg (Start register_fails ctx_done r) = wg r + 1"
    by (rule wg_Start)
  have 2: "last (trace (Start register_fails ctx_done r)) = Go_runHeartbeatLoop"
    by (simp add: Start_def split: prod.splits)
  have 3: "count_list (trace (Start register_fails ctx_done r)) Go_runHeartbeatLoop =
     count_list (trace r) Go_runHeartbeatLoop + 1"
    using n [of "config r"] by (auto simp: Start_def split: prod.splits option.splits)
  have 4: "step (Call_Start register_fails ctx_done) (boot r) =
     Some \<lparr>registrar = Start register_fails ctx_done r, loop = In_select, caller = Started,
           ctx_cancelled = False\<rparr>"
    by (simp add: boot_def)
  have 5: "map_option loop (run [Call_Start register_fails ctx_done, Select (On_tick h f c)] (boot r)) =
     Some (In_case (On_tick h f c))"
    by (simp add: boot_def)
  have h0: "count_list (trace (Start register_fails ctx_done r)) Heartbeat_call =
      count_list (trace r) Heartbeat_call"
    using retry_no_heartbeat [of "config r" register_fails ctx_done]
    by (auto simp: Start_def split: prod.splits option.splits)
  obtain ret r' where it: "loop_iteration (On_tick h f c) (Start register_fails ctx_done r) = (ret, r')"
    by (cases "loop_iteration (On_tick h f c) (Start register_fails ctx_done r)")
  have 6: "map_option (\<lambda>s. count_list (trace (registrar s)) Heartbeat_call)
       (run [Call_Start register_fails ctx_done, Select (On_tick h f c), Finish_case] (boot r)) =
     Some (count_list (trace r) Heartbeat_call + 1)"
    using loop_iteration_heartbeats(1) [OF it] h0 it by (simp add: boot_def)
  show ?thesis
    using 1 2 3 4 5 6 by blast
qed

text \<open>
  C8 at a registration that succeeds and at one that exhausts its attempts.
\<close>

theorem C8_start_launches_loop_witness:
  "fst (registerWithRetry (config (example_registrar 1)) never never) = None \<and>
   wg (Start never never (example_registrar 1)) = 1 \<and>
   last (trace (Start never never (example_registrar 1))) = Go_runHeartbeatLoop \<and>
   fst (registerWithRetry (config (example_registrar 1)) always never) =
     Some (Err_retries_exhausted 1) \<and>
   wg (Start always never (example_registrar 1)) = 1 \<and>
   last (trace (Start always never (example_registrar 1))) = Go_runHeartbeatLoop"
proof -
  have a: "fst (registerWithRetry (config (example_registrar 1)) never never) = None"
    and b: "fst (registerWithRetry (config (example_registrar 1)) always never) =
     Some (Err_retries_exhausted 1)"
    and w: "wg (example_registrar 1) = 0"
    by (simp_all add: example_registrar_def new_Registrar_def example_config_def
        registerWithRetry_def retry_from.simps always_def never_def)
  show ?thesis
    using C8_start_launches_loop [of never never "example_registrar 1" True always never]
      C8_start_launches_loop [of always never "example_registrar 1" True always never] a b w
    by simp
qed


section \<open>Close and NewRegistrar\<close>

lemma Close_open:
  assumes "\<forall>st. st \<noteq> Shutdown \<longrightarrow> conn_Close st = (None, Shutdown)"
  shows "fst (Close conn_Close cl) = None"
proof (cases cl)
  case (Http c)
  then show ?thesis by (simp add: httpClient_Close_def)
next
  case (Grpc c)
  with assms show ?thesis
    by (auto simp: grpcClient_Close_def split: option.splits prod.splits)
qed

lemma Close_times_ok:
  assumes "\<forall>st. st \<noteq> Shutdown \<longrightarrow> conn_Close st = (None, Shutdown)"
  shows "fst (Close_times conn_Close n cl) = replicate n None"
proof (induction n arbitrary: cl)
  case 0
  then show ?case by simp
next
  case (Suc n)
  obtain err cl' where c: "Close conn_Close cl = (err, cl')"
    by (cases "Close conn_Close cl")
  with Close_open [OF assms, of cl] have "err = None" by simp
  with c Suc.IH [of cl'] show ?case
    by (cases "Close_times conn_Close n cl'") simp
qed

lemma Close_twice:
  assumes "\<forall>st. st \<noteq> Shutdown \<longrightarrow> conn_Close st = (None, Shutdown)"
  shows "Close conn_Close (snd (Close conn_Close cl)) = (None, snd (Close conn_Close cl))"
proof (cases cl)
  case (Http c)
  then show ?thesis by (simp add: httpClient_Close_def)
next
  case (Grpc c)
  show ?thesis
  proof (cases "conn c")
    case None
    with Grpc show ?thesis by (simp add: grpcClient_Close_def)
  next
    case (Some st)
    with Grpc assms show ?thesis
      by (cases "st = Shutdown") (simp_all add: grpcClient_Close_def)
  qed
qed

text \<open>
  C4: \<^verbatim>\<open>Close\<close> of the HTTP client returns nil and changes nothing; so does \<^verbatim>\<open>Close\<close> of
  the gRPC client on a nil connection (never opened) and on a connection in state
  \<^verbatim>\<open>Shutdown\<close> (already closed), whatever the library's \<^verbatim>\<open>ClientConn.Close\<close> does. On an
  open connection \<^verbatim>\<open>grpcClient.Close\<close> returns what the library returns; with a library
  whose \<^verbatim>\<open>Close\<close> of an open connection succeeds and leaves it in state \<^verbatim>\<open>Shutdown\<close>, any
  number of \<^verbatim>\<open>Close\<close> calls on any client all return nil, and a second call changes
  nothing.
\<close>

theorem C4_close_idempotent:
  "Close conn_Close (Http c) = (None, Http c) \<and>
   Close conn_Close (Grpc \<lparr>registryAddress = a, conn = None\<rparr>) =
     (None, Grpc \<lparr>registryAddress = a, conn = None\<rparr>) \<and>
   Close conn_Close (Grpc \<lparr>registryAddress = a, conn = Some Shutdown\<rparr>) =
     (None, Grpc \<lparr>registryAddress = a, conn = Some Shutdown\<rparr>) \<and>
   ((\<forall>st. st \<noteq> Shutdown \<longrightarrow> conn_Close st = (None, Shutdown)) \<longrightarrow>
      fst (Close_times conn_Close n cl) = replicate n None \<and>
      Close conn_Close (snd (Close conn_Close cl)) = (None, snd (Close conn_Close cl)))"
  using Close_times_ok [of conn_Close n cl] Close_twice [of conn_Close cl]
  by (simp add: httpClient_Close_def grpcClient_Close_def)

text \<open>
  C4 with a library whose \<^verbatim>\<open>Close\<close> fails on a closed connection: the guard on
  \<^verbatim>\<open>Shutdown\<close> keeps the second and third call away from it.
\<close>

theorem C4_close_idempotent_witness:
  "Close_times lib_conn_Close 3 (Grpc \<lparr>registryAddress = ''registry:9090'', conn = Some Ready\<rparr>) =
     ([None, None, None], Grpc \<lparr>registryAddress = ''registry:9090'', conn = Some Shutdown\<rparr>) \<and>
   Close_times lib_conn_Close 2 (Grpc \<lparr>registryAddress = ''registry:9090'', conn = None\<rparr>) =
     ([None, None], Grpc \<lparr>registryAddress = ''registry:9090'', conn = None\<rparr>) \<and>
   Close_times lib_conn_Close 2 (NewHTTPClient ''http://registry:8080'' second) =
     ([None, None], NewHTTPClient ''http://registry:8080'' second) \<and>
   lib_conn_Close Shutdown = (Some Err_ClientConnClosing, Shutdown)"
proof -
  have h: "\<forall>st. st \<noteq> Shutdown \<longrightarrow> lib_conn_Close st = (None, Shutdown)"
    by (simp add: lib_conn_Close_def)
  have n3: "(3::nat) = Suc (Suc (Suc 0))" and n2: "(2::nat) = Suc (Suc 0)"
    by simp_all
  show ?thesis
    using h
      C4_close_idempotent [of lib_conn_Close "\<lparr>registryURL = ''http://registry:8080'', timeout = second\<rparr>"
        "''registry:9090''" 3 "Grpc \<lparr>registryAddress = ''registry:9090'', conn = Some Ready\<rparr>"]
    unfolding n3 n2
    by (simp add: lib_conn_Close_def grpcClient_Close_def httpClient_Close_def NewHTTPClient_def)
qed

text \<open>
  C9, as the specification states it, fails: a configuration with every numeric
  invariant satisfied and the transport \<^verbatim>\<open>http\<close>, which can always be instantiated, is
  still rejected when its \<^verbatim>\<open>RegistryURL\<close> is empty (line 49).
\<close>

theorem C9_counterexample:
  "0 < sint (HeartbeatInterval invalid_url_config) \<and>
   0 < sint (CallTimeout invalid_url_config) \<and>
   0 \<le> MaxRetries invalid_url_config \<and>
   0 \<le> sint (RetryDelay invalid_url_config) \<and>
   RegistryType invalid_url_config = ''http'' \<and>
   NewRegistrar dial_idle example_instance (Some invalid_url_config) = Inl Err_RegistryURL"
  by (simp add: invalid_url_config_def example_config_def second_def NewRegistrar_def)

text \<open>
  C9, amended: construction fails whenever \<^verbatim>\<open>HeartbeatInterval <= 0\<close>,
  \<^verbatim>\<open>CallTimeout <= 0\<close>, \<^verbatim>\<open>MaxRetries < 0\<close>, \<^verbatim>\<open>RetryDelay < 0\<close> or the registry type is
  neither \<^verbatim>\<open>http\<close> nor \<^verbatim>\<open>grpc\<close>. When these invariants hold and, in addition, the
  configuration is not nil and its \<^verbatim>\<open>RegistryURL\<close> is not empty, construction returns a
  new Registrar with the HTTP client for \<^verbatim>\<open>http\<close>, and for \<^verbatim>\<open>grpc\<close> a new Registrar
  with the gRPC client when the library can create the connection, an error when it
  cannot.
\<close>

theorem C9_construction:
  "(sint (HeartbeatInterval cfg) \<le> 0 \<or> sint (CallTimeout cfg) \<le> 0 \<or> MaxRetries cfg < 0 \<or>
    sint (RetryDelay cfg) < 0 \<or> (RegistryType cfg \<noteq> ''http'' \<and> RegistryType cfg \<noteq> ''grpc'') \<longrightarrow>
      isl (NewRegistrar dial i (Some cfg))) \<and>
   (RegistryURL cfg \<noteq> [] \<and> 0 < sint (HeartbeatInterval cfg) \<and> 0 < sint (CallTimeout cfg) \<and>
    0 \<le> MaxRetries cfg \<and> 0 \<le> sint (RetryDelay cfg) \<longrightarrow>
      (RegistryType cfg = ''http'' \<longrightarrow>
         NewRegistrar dial i (Some cfg) =
           Inr (new_Registrar i (NewHTTPClient (RegistryURL cfg) (CallTimeout cfg)) cfg)) \<and>
      (RegistryType cfg = ''grpc'' \<longrightarrow>
         (case dial (RegistryURL cfg) of
            Some st \<Rightarrow>
              NewRegistrar dial i (Some cfg) =
                Inr (new_Registrar i
                      (Grpc \<lparr>registryAddress = RegistryURL cfg, conn = Some st\<rparr>) cfg)
          | None \<Rightarrow> NewRegistrar dial i (Some cfg) = Inl Err_grpc_client)))"
  by (auto simp: NewRegistrar_def NewGRPCClient_def split: option.splits)

text \<open>
  C9 at configurations that are accepted (both transports) and rejected.
\<close>

theorem C9_construction_witness:
  "NewRegistrar dial_idle example_instance (Some (example_config 5)) =
     Inr (new_Registrar example_instance
           (NewHTTPClient ''http://registry:8080'' (5 * second)) (example_config 5)) \<and>
   NewRegistrar dial_idle example_instance (Some grpc_config) =
     Inr (new_Registrar example_instance
           (Grpc \<lparr>registryAddress = ''registry:9090'', conn = Some Idle\<rparr>) grpc_config) \<and>
   NewRegistrar dial_fails example_instance (Some grpc_config) = Inl Err_grpc_client \<and>
   isl (NewRegistrar dial_idle example_instance (Some (example_config (- 1)))) \<and>
   isl (NewRegistrar dial_idle example_instance
          (Some ((example_config 5)\<lparr>RegistryType := ''udp''\<rparr>))) \<and>
   isl (NewRegistrar dial_idle example_instance
          (Some ((example_config 5)\<lparr>HeartbeatInterval := 0\<rparr>)))"
proof -
  have v: "RegistryURL (example_config 5) \<noteq> [] \<and> 0 < sint (HeartbeatInterval (example_config 5)) \<and>
    0 < sint (CallTimeout (example_config 5)) \<and> 0 \<le> MaxRetries (example_config 5) \<and>
    0 \<le> sint (RetryDelay (example_config 5))" and t: "RegistryType (example_config 5) = ''http''"
    by (simp_all add: example_config_def second_def)
  have g: "RegistryURL grpc_config \<noteq> [] \<and> 0 < sint (HeartbeatInterval grpc_config) \<and>
    0 < sint (CallTimeout grpc_config) \<and> 0 \<le> MaxRetries grpc_config \<and>
    0 \<le> sint (RetryDelay grpc_config)" and tg: "RegistryType grpc_config = ''grpc''"
    by (simp_all add: grpc_config_def example_config_def second_def)
  have m: "MaxRetries (example_config (- 1)) < 0"
    by (simp add: example_config_def)
  have u: "RegistryType ((example_config 5)\<lparr>RegistryType := ''udp''\<rparr>) \<noteq> ''http'' \<and>
           RegistryType ((example_config 5)\<lparr>RegistryType := ''udp''\<rparr>) \<noteq> ''grpc''"
    by simp
  have z: "sint (HeartbeatInterval ((example_config 5)\<lparr>HeartbeatInterval := 0\<rparr>)) \<le> 0"
    by simp
  show ?thesis
    using C9_construction [of "example_config 5" dial_idle example_instance] v t
      C9_construction [of grpc_config dial_idle example_instance] g tg
      C9_construction [of grpc_config dial_fails example_instance]
      C9_construction [of "example_config (- 1)" dial_idle example_instance] m
      C9_construction [of "(example_config 5)\<lparr>RegistryType := ''udp''\<rparr>" dial_idle example_instance] u
      C9_construction [of "(example_config 5)\<lparr>HeartbeatInterval := 0\<rparr>" dial_idle example_instance] z
    by (simp add: dial_idle_def dial_fails_def example_config_def grpc_config_def)
qed

text \<open>
  C10: \<^verbatim>\<open>NewRegistrar\<close> fails on a nil configuration (line 46) and on an empty
  \<^verbatim>\<open>RegistryURL\<close> (line 49), before and whatever the numeric and registry type checks
  would say.
\<close>

theorem C10_nil_config_and_empty_url:
  "NewRegistrar dial i None = Inl Err_config_nil \<and>
   (RegistryURL cfg = [] \<longrightarrow> NewRegistrar dial i (Some cfg) = Inl Err_RegistryURL)"
  by (simp add: NewRegistrar_def)

text \<open>
  C10 at a configuration whose only defect is the empty \<^verbatim>\<open>RegistryURL\<close>.
\<close>

theorem C10_nil_config_and_empty_url_witness:
  "NewRegistrar dial_idle example_instance None = Inl Err_config_nil \<and>
   NewRegistrar dial_idle example_instance (Some invalid_url_config) = Inl Err_RegistryURL \<and>
   0 < sint (HeartbeatInterval invalid_url_config) \<and>
   0 < sint (CallTimeout invalid_url_config) \<and>
   0 \<le> MaxRetries invalid_url_config \<and>
   0 \<le> sint (RetryDelay invalid_url_config) \<and>
   RegistryType invalid_url_config = ''http''"
proof -
  have e: "RegistryURL invalid_url_config = []"
    by (simp add: invalid_url_config_def)
  show ?thesis
    using C10_nil_config_and_empty_url [of dial_idle example_instance invalid_url_config] e
    by (simp add: invalid_url_config_def example_config_def second_def)
qed

end
